theory Spec2Isabelle
  imports Main "HOL-Library.Word"
begin

section \<open>Columns\<close>

text \<open>
  The exceptions the two functions throw, by error code. \<open>OUT_OF_BOUNDS\<close> is not an
  exception of the source: it stands for an index past the end of a buffer, which the
  source's unchecked \<^verbatim>\<open>operator[]\<close> leaves undefined.
\<close>

datatype error =
    NUMBER_OF_ARGUMENTS_DOESNT_MATCH
  | ILLEGAL_TYPE_OF_ARGUMENT
  | LOGICAL_ERROR
  | ILLEGAL_COLUMN
  | OUT_OF_BOUNDS

text \<open>
  \<^verbatim>\<open>IColumn\<close> as far as the two functions look at it. A \<open>ColumnArray\<close> is the flat
  buffer of all elements (\<^verbatim>\<open>getData()\<close>) and the cumulative end offsets of the rows
  (\<^verbatim>\<open>getOffsets()\<close>, \<^verbatim>\<open>UInt64\<close> indices into the buffer, here \<open>nat\<close>); a
  \<open>ColumnConst\<close> wraps a data column and carries the logical size; \<open>ColumnPlain\<close> is
  any other column, a list of values.
\<close>

datatype ('a, 'v) column =
    ColumnArray "'a list" "nat list"
  | ColumnConst "('a, 'v) column" nat
  | ColumnPlain "'v list"

fun column_size :: "('a, 'v) column \<Rightarrow> nat" where
  "column_size (ColumnArray data offsets) = length offsets"
| "column_size (ColumnConst c n) = n"
| "column_size (ColumnPlain vs) = length vs"

text \<open>
  The rows of an array column: row \<open>i\<close> is the half-open range
  \<open>[offsets[i-1], offsets[i])\<close> of the flat buffer, with \<open>offsets[-1] = 0\<close>. A constant
  column repeats the first row of its data column.
\<close>

fun rows_from :: "nat \<Rightarrow> nat list \<Rightarrow> 'a list \<Rightarrow> 'a list list" where
  "rows_from prev_off [] data = []"
| "rows_from prev_off (off # offsets) data =
     take (off - prev_off) (drop prev_off data) # rows_from off offsets data"

fun array_rows :: "('a, 'v) column \<Rightarrow> 'a list list" where
  "array_rows (ColumnArray data offsets) = rows_from 0 offsets data"
| "array_rows (ColumnConst c n) =
     replicate n (case array_rows c of [] \<Rightarrow> [] | row # _ \<Rightarrow> row)"
| "array_rows (ColumnPlain vs) = []"

text \<open>
  The representation invariant of \<open>ColumnArray\<close>: the offsets do not decrease and the
  last one is the size of the flat buffer.
\<close>

definition valid_offsets :: "'a list \<Rightarrow> nat list \<Rightarrow> bool" where
  "valid_offsets data offsets \<longleftrightarrow> sorted offsets \<and> last (0 # offsets) = length data"

section \<open>arrayEnumerate\<close>

text \<open>
  \<^verbatim>\<open>res_values.resize(n)\<close> does not initialise the new cells: \<open>mem\<close> is whatever the
  allocation holds.
\<close>

definition resize :: "(nat \<Rightarrow> 32 word) \<Rightarrow> nat \<Rightarrow> 32 word list" where
  "resize mem n = map mem [0..<n]"

text \<open>
  The inner loop \<^verbatim>\<open>for (j = prev_off; j < off; ++j) res_values[j] = UInt32(j - prev_off + 1)\<close>.
  \<open>j - prev_off + 1\<close> is computed in \<^verbatim>\<open>UInt64\<close> with \<open>prev_off \<le> j\<close> and does not wrap;
  the cast to \<^verbatim>\<open>UInt32\<close> keeps the low 32 bits, as \<open>of_nat\<close> into \<open>32 word\<close> does.
\<close>

function enumerate_row :: "nat \<Rightarrow> nat \<Rightarrow> nat \<Rightarrow> 32 word list \<Rightarrow> error + 32 word list" where
  "enumerate_row prev_off off j res_values =
     (if j < off then
        (if j < length res_values
         then enumerate_row prev_off off (Suc j) (res_values[j := of_nat (j - prev_off + 1)])
         else Inl OUT_OF_BOUNDS)
      else Inr res_values)"
  by pat_completeness auto
termination
  by (relation "measure (\<lambda>(prev_off, off, j, res_values). off - j)") auto

declare enumerate_row.simps [simp del]

text \<open>The outer loop \<^verbatim>\<open>for (auto off : offsets)\<close>, carrying \<open>prev_off\<close>.\<close>

fun enumerate_rows :: "nat \<Rightarrow> nat list \<Rightarrow> 32 word list \<Rightarrow> error + 32 word list" where
  "enumerate_rows prev_off [] res_values = Inr res_values"
| "enumerate_rows prev_off (off # offsets) res_values =
     (case enumerate_row prev_off off prev_off res_values of
        Inl e \<Rightarrow> Inl e
      | Inr res_values' \<Rightarrow> enumerate_rows off offsets res_values')"

text \<open>
  \<^verbatim>\<open>FunctionArrayEnumerate::executeImpl\<close>. \<^verbatim>\<open>checkAndGetColumn<ColumnArray>\<close> succeeds on a
  \<open>ColumnArray\<close> only; the result shares the argument's offsets.
\<close>

fun arrayEnumerate_executeImpl ::
  "(nat \<Rightarrow> 32 word) \<Rightarrow> ('a, 'v) column \<Rightarrow> error + (32 word, 'v) column" where
  "arrayEnumerate_executeImpl mem (ColumnArray data offsets) =
     (case enumerate_rows 0 offsets (resize mem (length data)) of
        Inl e \<Rightarrow> Inl e
      | Inr res_values \<Rightarrow> Inr (ColumnArray res_values offsets))"
| "arrayEnumerate_executeImpl mem (ColumnConst c n) = Inl ILLEGAL_COLUMN"
| "arrayEnumerate_executeImpl mem (ColumnPlain vs) = Inl ILLEGAL_COLUMN"

text \<open>What the documentation promises for one row: \<open>[1, 2, ..., length row]\<close>.\<close>

definition enumerated :: "'a list \<Rightarrow> 32 word list" where
  "enumerated row = map (\<lambda>j. of_nat (j + 1)) [0..<length row]"

section \<open>arraySlice: types and columns of the arguments\<close>

text \<open>
  \<^verbatim>\<open>IDataType\<close> as \<^verbatim>\<open>getReturnTypeImpl\<close> and \<^verbatim>\<open>executeImpl\<close> look at it; the class itself
  is outside the two files, so a type is the record of what they ask of it:
  \<^verbatim>\<open>onlyNull()\<close>, whether the \<^verbatim>\<open>typeid_cast\<close> to \<^verbatim>\<open>DataTypeArray\<close> succeeds,
  \<^verbatim>\<open>isInteger(removeNullable(t))\<close>, and the type's default value.
\<close>

record 'v data_type =
  onlyNull :: bool
  isArray :: bool
  isInteger :: bool
  defaultValue :: 'v

text \<open>
  Modelled from the spec: \<^verbatim>\<open>IDataType::createColumnConstWithDefaultValue\<close> is not in the
  two files. The spec calls its result "an all-default-value constant result of the
  required output type": a constant column over the type's default value, of the size asked.
\<close>

definition createColumnConstWithDefaultValue :: "'v data_type \<Rightarrow> nat \<Rightarrow> ('a, 'v) column" where
  "createColumnConstWithDefaultValue t n = ColumnConst (ColumnPlain [defaultValue t]) n"

text \<open>
  The offset and length columns, by the three shapes \<^verbatim>\<open>executeImpl\<close> tells apart, in the
  order it tests them: \<^verbatim>\<open>onlyNull()\<close> (\<open>ColumnNull\<close>), then \<^verbatim>\<open>isColumnConst\<close>
  (\<open>ColumnConstInt\<close>: the value and the size), then a full column with a value per row
  (\<open>ColumnInt\<close>). A value is the 64 bits that \<^verbatim>\<open>getUInt\<close> returns as \<^verbatim>\<open>UInt64\<close> and
  \<^verbatim>\<open>getInt\<close> as \<^verbatim>\<open>Int64\<close>; \<open>sint\<close> reads it as the signed number.
\<close>

datatype int_column =
    ColumnNull
  | ColumnConstInt "64 word" nat
  | ColumnInt "64 word list"

text \<open>
  What \<^verbatim>\<open>GatherUtils::createArraySource(column, is_const, size)\<close> is given: the flat buffer
  and the offsets of the array column, whether it was wrapped in a \<open>ColumnConst\<close>, and the
  number of rows.
\<close>

datatype 'a array_source = ArraySource "'a list" "nat list" bool nat

text \<open>
  The six slicing routines of \<^verbatim>\<open>GatherUtils\<close> that \<^verbatim>\<open>executeImpl\<close> calls. They are outside
  the two files, so \<^verbatim>\<open>executeImpl\<close> takes them as a parameter. A \<^verbatim>\<open>size_t\<close> or
  \<^verbatim>\<open>ssize_t\<close> argument is a \<open>64 word\<close>.
\<close>

record ('a, 'v) gather_utils =
  sliceFromLeftConstantOffsetUnbounded :: "'a array_source \<Rightarrow> 64 word \<Rightarrow> ('a, 'v) column"
  sliceFromRightConstantOffsetUnbounded :: "'a array_source \<Rightarrow> 64 word \<Rightarrow> ('a, 'v) column"
  sliceFromLeftConstantOffsetBounded :: "'a array_source \<Rightarrow> 64 word \<Rightarrow> 64 word \<Rightarrow> ('a, 'v) column"
  sliceFromRightConstantOffsetBounded :: "'a array_source \<Rightarrow> 64 word \<Rightarrow> 64 word \<Rightarrow> ('a, 'v) column"
  sliceDynamicOffsetUnbounded :: "'a array_source \<Rightarrow> int_column \<Rightarrow> ('a, 'v) column"
  sliceDynamicOffsetBounded :: "'a array_source \<Rightarrow> int_column \<Rightarrow> int_column \<Rightarrow> ('a, 'v) column"

section \<open>arraySlice: the function\<close>

text \<open>
  \<^verbatim>\<open>FunctionArraySlice::getReturnTypeImpl\<close>. The loop over the arguments after the first
  throws at the first one that is neither an integer nor only-null.
\<close>

definition arraySlice_getReturnTypeImpl :: "'v data_type list \<Rightarrow> error + 'v data_type" where
  "arraySlice_getReturnTypeImpl arguments =
     (let number_of_arguments = length arguments in
      if number_of_arguments < 2 \<or> number_of_arguments > 3 then Inl NUMBER_OF_ARGUMENTS_DOESNT_MATCH
      else if onlyNull (arguments ! 0) then Inr (arguments ! 0)
      else if \<not> isArray (arguments ! 0) then Inl ILLEGAL_TYPE_OF_ARGUMENT
      else if list_ex (\<lambda>t. \<not> isInteger t \<and> \<not> onlyNull t) (drop 1 arguments)
        then Inl ILLEGAL_TYPE_OF_ARGUMENT
      else Inr (arguments ! 0))"

text \<open>
  \<^verbatim>\<open>FunctionArraySlice::executeImpl\<close>. The three column arguments are
  \<^verbatim>\<open>arguments[0].column\<close>, \<^verbatim>\<open>arguments[1].column\<close> and, when there is a third,
  \<^verbatim>\<open>arguments[2].column\<close> (\<open>None\<close> is the \<^verbatim>\<open>nullptr\<close> of a call with two arguments).
  \<open>size\<close> is read before a \<open>ColumnConst\<close> is unwrapped. The test
  \<^verbatim>\<open>!length_column || length_column->onlyNull()\<close> is the first two cases of each
  \<open>case length_column\<close>. In the branch for a constant offset column,
  \<^verbatim>\<open>ssize_t offset = offset_column->getUInt(0)\<close> keeps the 64 bits, \<open>offset > 0\<close> is the
  signed comparison, and \<^verbatim>\<open>static_cast<size_t>(offset - 1)\<close> and
  \<^verbatim>\<open>-static_cast<size_t>(offset)\<close> are subtraction and negation modulo \<open>2 ^ 64\<close>.
\<close>

definition arraySlice_executeImpl ::
  "('a, 'v) gather_utils \<Rightarrow> 'v data_type \<Rightarrow> ('a, 'v) column \<Rightarrow> int_column \<Rightarrow> int_column option
     \<Rightarrow> nat \<Rightarrow> error + ('a, 'v) column" where
  "arraySlice_executeImpl gu return_type arg0 offset_column length_column input_rows_count =
     (if onlyNull return_type
      then Inr (createColumnConstWithDefaultValue return_type input_rows_count)
      else
        let size = column_size arg0;
            (is_const, array_column) =
               (case arg0 of ColumnConst c n \<Rightarrow> (True, c) | _ \<Rightarrow> (False, arg0))
        in case array_column of
          ColumnArray data offsets \<Rightarrow>
            (let source = ArraySource data offsets is_const size in
             case offset_column of
               ColumnNull \<Rightarrow>
                 (case length_column of
                    None \<Rightarrow> Inr arg0
                  | Some ColumnNull \<Rightarrow> Inr arg0
                  | Some (ColumnConstInt len n) \<Rightarrow>
                      Inr (sliceFromLeftConstantOffsetBounded gu source 0 len)
                  | Some (ColumnInt lens) \<Rightarrow>
                      Inr (sliceDynamicOffsetBounded gu source (ColumnConstInt 1 size) (ColumnInt lens)))
             | ColumnConstInt offset m \<Rightarrow>
                 (case length_column of
                    None \<Rightarrow>
                      (if 0 < sint offset
                       then Inr (sliceFromLeftConstantOffsetUnbounded gu source (offset - 1))
                       else Inr (sliceFromRightConstantOffsetUnbounded gu source (- offset)))
                  | Some ColumnNull \<Rightarrow>
                      (if 0 < sint offset
                       then Inr (sliceFromLeftConstantOffsetUnbounded gu source (offset - 1))
                       else Inr (sliceFromRightConstantOffsetUnbounded gu source (- offset)))
                  | Some (ColumnConstInt len n) \<Rightarrow>
                      (if 0 < sint offset
                       then Inr (sliceFromLeftConstantOffsetBounded gu source (offset - 1) len)
                       else Inr (sliceFromRightConstantOffsetBounded gu source (- offset) len))
                  | Some (ColumnInt lens) \<Rightarrow>
                      Inr (sliceDynamicOffsetBounded gu source offset_column (ColumnInt lens)))
             | ColumnInt offsets_per_row \<Rightarrow>
                 (case length_column of
                    None \<Rightarrow> Inr (sliceDynamicOffsetUnbounded gu source offset_column)
                  | Some ColumnNull \<Rightarrow> Inr (sliceDynamicOffsetUnbounded gu source offset_column)
                  | Some length_col \<Rightarrow>
                      Inr (sliceDynamicOffsetBounded gu source offset_column length_col)))
        | _ \<Rightarrow> Inl LOGICAL_ERROR)"

section \<open>arraySlice: the slicing routines, from the specification\<close>

text \<open>
  Modelled from the spec: the Array Source of \<^verbatim>\<open>GatherUtils\<close> is not in the two files.
  Section 4.1 of the spec: \<open>rowCount\<close> is the number of rows; \<open>elementsOfRow i\<close> is the
  contiguous range of the flat buffer between the offsets of row \<open>i\<close>, and a constant
  source answers every row with its single row; \<open>rowLength\<close> is its length. A row the
  offsets do not have is empty.
\<close>

fun rowCount :: "'a array_source \<Rightarrow> nat" where
  "rowCount (ArraySource data offsets is_const n) = n"

text \<open>Modelled from the spec: \<open>isConst()\<close> of the Array Source (section 4.1).\<close>

fun isConst :: "'a array_source \<Rightarrow> bool" where
  "isConst (ArraySource data offsets is_const n) = is_const"

text \<open>
  Modelled from the spec: \<open>elementsOfRow(i)\<close> of the Array Source (section 4.1), the
  range \<open>[offsets[i-1], offsets[i])\<close> of the flat buffer (section 3), row 0 for every \<open>i\<close>
  when the source is constant.
\<close>

fun elementsOfRow :: "'a array_source \<Rightarrow> nat \<Rightarrow> 'a list" where
  "elementsOfRow (ArraySource data offsets is_const n) i =
     (let j = (if is_const then 0 else i) in
      if j < length offsets
      then (let prev = (if j = 0 then 0 else offsets ! (j - 1))
            in take (offsets ! j - prev) (drop prev data))
      else [])"

text \<open>Modelled from the spec: \<open>rowLength(i)\<close> of the Array Source (section 4.1).\<close>

definition rowLength :: "'a array_source \<Rightarrow> nat \<Rightarrow> nat" where
  "rowLength src i = length (elementsOfRow src i)"

text \<open>
  Modelled from the spec: the Index Resolver of section 4.2, which in the repository is
  spread over the \<^verbatim>\<open>GatherUtils\<close> routines. \<open>n\<close> is the row length, \<open>off\<close> and \<open>len\<close> the
  raw offset and length, \<open>None\<close> when absent.

  Step 1, the 1-based start \<open>s\<close>: 1 for an absent offset, \<open>o\<close> for \<open>o > 0\<close>,
  \<open>n + o + 1\<close> for \<open>o < 0\<close>; for a literal offset 0 the spec keeps "the resolver's generic
  formula (\<open>s = 0\<close>, then clamped to 1)" (section 9).
\<close>

definition start_position :: "nat \<Rightarrow> int option \<Rightarrow> int" where
  "start_position n off =
     (case off of
        None \<Rightarrow> 1
      | Some v \<Rightarrow> if 0 < v then v else if v < 0 then int n + v + 1 else 0)"

text \<open>
  Modelled from the spec: step 2 of the Index Resolver, the exclusive end \<open>e\<close>:
  \<open>n + 1\<close> for an absent length beside an offset, \<open>s + l\<close> for \<open>l \<ge> 0\<close> (from the \<open>s\<close>
  of step 1, before the clamp), \<open>n + l + 1\<close> for \<open>l < 0\<close>.
\<close>

definition end_position :: "nat \<Rightarrow> int option \<Rightarrow> int option \<Rightarrow> int" where
  "end_position n off len =
     (case len of
        None \<Rightarrow> int n + 1
      | Some l \<Rightarrow> if 0 \<le> l then start_position n off + l else int n + l + 1)"

text \<open>Modelled from the spec: step 3 of the Index Resolver, \<open>max(1, min(x, n + 1))\<close>.\<close>

definition clamp :: "nat \<Rightarrow> int \<Rightarrow> int" where
  "clamp n x = max 1 (min x (int n + 1))"

text \<open>
  Modelled from the spec: step 4 of the Index Resolver, the half-open 0-based range
  \<open>start = s' - 1\<close>, \<open>end = max(start, e' - 1)\<close>. With offset and length both absent
  step 2 says "identity: \<open>s = 1\<close>, \<open>e = n\<close> (entire row unchanged)", the positions 1 to
  \<open>n\<close>: the range is the whole row. \<^verbatim>\<open>executeImpl\<close> does not come here with both absent
  for a whole call: it returns its argument.
\<close>

definition resolve :: "nat \<Rightarrow> int option \<Rightarrow> int option \<Rightarrow> nat \<times> nat" where
  "resolve n off len =
     (if off = None \<and> len = None then (0, n)
      else
        let s' = clamp n (start_position n off);
            e' = clamp n (end_position n off len);
            start = s' - 1;
            end_pos = max start (e' - 1)
        in (nat start, nat end_pos))"

text \<open>
  Modelled from the spec: the copy step of an executor on one row, the elements of the
  resolved range in their order (section 4.3).
\<close>

definition slice_row :: "'a list \<Rightarrow> int option \<Rightarrow> int option \<Rightarrow> 'a list" where
  "slice_row row off len =
     (case resolve (length row) off len of (start, end_pos) \<Rightarrow> take (end_pos - start) (drop start row))"

text \<open>
  Modelled from the spec: the offsets of the sink, the cumulative ends of the rows written
  (section 3).
\<close>

fun sink_offsets :: "nat \<Rightarrow> 'a list list \<Rightarrow> nat list" where
  "sink_offsets prev_off [] = []"
| "sink_offsets prev_off (row # rows) =
     (prev_off + length row) # sink_offsets (prev_off + length row) rows"

text \<open>
  Modelled from the spec: the sink. Section 4.3: an executor produces "a new flat buffer
  sized to the sum of resolved range lengths, and a new offsets array of the same row
  count, by copying each row's resolved element sub-range contiguously in row order".
\<close>

definition write_rows :: "'a list list \<Rightarrow> ('a, 'v) column" where
  "write_rows rows = ColumnArray (concat rows) (sink_offsets 0 rows)"

text \<open>
  Modelled from the spec: an executor applies the Index Resolver row by row and copies
  the resolved ranges (section 4.3); \<open>off i\<close> and \<open>len i\<close> are the parameters of row \<open>i\<close>.
\<close>

definition slice_rows ::
  "'a array_source \<Rightarrow> (nat \<Rightarrow> int option) \<Rightarrow> (nat \<Rightarrow> int option) \<Rightarrow> ('a, 'v) column" where
  "slice_rows src off len =
     write_rows (map (\<lambda>i. slice_row (elementsOfRow src i) (off i) (len i)) [0..<rowCount src])"

text \<open>
  Modelled from the spec: the value of a parameter column at a row, for the dynamic
  executor. A constant column has its value at every row, a full column its own, read as
  a signed integer; an only-null column is absent. The spec takes the columns as aligned
  to the row count of the array column (section 6); a row a full column does not have
  is absent.
\<close>

fun value_at :: "int_column \<Rightarrow> nat \<Rightarrow> int option" where
  "value_at ColumnNull i = None"
| "value_at (ColumnConstInt w n) i = Some (sint w)"
| "value_at (ColumnInt ws) i = (if i < length ws then Some (sint (ws ! i)) else None)"

text \<open>
  Modelled from the spec: the six executors of section 4.3, each "provably equivalent to
  invoking the Index Resolver per row and copying the resolved range". The left-anchored
  ones are handed the 0-based start, \<open>offset - 1\<close>, so the offset is that plus one; the
  right-anchored ones are handed the magnitude of a non-positive offset, so the offset is
  its negation; a bounded one is handed the signed length.
\<close>

definition GatherUtils :: "('a, 'v) gather_utils" where
  "GatherUtils =
     \<lparr> sliceFromLeftConstantOffsetUnbounded =
         (\<lambda>src offset. slice_rows src (\<lambda>i. Some (int (unat offset) + 1)) (\<lambda>i. None)),
       sliceFromRightConstantOffsetUnbounded =
         (\<lambda>src offset. slice_rows src (\<lambda>i. Some (- int (unat offset))) (\<lambda>i. None)),
       sliceFromLeftConstantOffsetBounded =
         (\<lambda>src offset len. slice_rows src (\<lambda>i. Some (int (unat offset) + 1)) (\<lambda>i. Some (sint len))),
       sliceFromRightConstantOffsetBounded =
         (\<lambda>src offset len. slice_rows src (\<lambda>i. Some (- int (unat offset))) (\<lambda>i. Some (sint len))),
       sliceDynamicOffsetUnbounded =
         (\<lambda>src offset_column. slice_rows src (value_at offset_column) (\<lambda>i. None)),
       sliceDynamicOffsetBounded =
         (\<lambda>src offset_column length_column.
            slice_rows src (value_at offset_column) (value_at length_column)) \<rparr>"

section \<open>Vocabulary of the statements\<close>

text \<open>
  The columns \<^verbatim>\<open>executeImpl\<close> accepts as its first argument: a \<open>ColumnArray\<close>, bare or
  wrapped in a \<open>ColumnConst\<close>. Anything else is the \<open>LOGICAL_ERROR\<close>.
\<close>

fun array_shaped :: "('a, 'v) column \<Rightarrow> bool" where
  "array_shaped (ColumnArray data offsets) = True"
| "array_shaped (ColumnConst (ColumnArray data offsets) n) = True"
| "array_shaped c = False"

text \<open>\<^verbatim>\<open>!length_column || length_column->onlyNull()\<close>.\<close>

fun length_absent :: "int_column option \<Rightarrow> bool" where
  "length_absent None = True"
| "length_absent (Some ColumnNull) = True"
| "length_absent (Some c) = False"

text \<open>
  The offset and length that row \<open>i\<close> is sliced with. An only-null offset column beside
  a length is sliced from position 1: \<^verbatim>\<open>executeImpl\<close> passes the 0-based offset 0, or a
  constant column of ones.
\<close>

fun offset_param :: "int_column \<Rightarrow> nat \<Rightarrow> int option" where
  "offset_param ColumnNull i = Some 1"
| "offset_param c i = value_at c i"

fun length_param :: "int_column option \<Rightarrow> nat \<Rightarrow> int option" where
  "length_param None i = None"
| "length_param (Some c) i = value_at c i"

section \<open>Properties of arraySlice\<close>

subsection \<open>The sink and the source\<close>

lemma rows_from_sink:
  "length pre = p \<Longrightarrow> rows_from p (sink_offsets p rs) (pre @ concat rs) = rs"
proof (induction rs arbitrary: p pre)
  case Nil
  then show ?case by simp
next
  case (Cons r rs)
  have "rows_from (p + length r) (sink_offsets (p + length r) rs) ((pre @ r) @ concat rs) = rs"
    by (rule Cons.IH) (simp add: Cons.prems)
  with Cons.prems show ?case by simp
qed

lemma array_rows_write_rows: "array_rows (write_rows rs) = rs"
  using rows_from_sink [of "[]" 0 rs] by (simp add: write_rows_def)

lemma length_rows_from: "length (rows_from p offs d) = length offs"
  by (induction offs arbitrary: p) simp_all

lemma rows_from_nth:
  "j < length offs \<Longrightarrow>
   rows_from p offs d ! j = take (offs ! j - (p # offs) ! j) (drop ((p # offs) ! j) d)"
proof (induction offs arbitrary: p j)
  case Nil
  then show ?case by simp
next
  case (Cons off offs)
  then show ?case by (cases j) simp_all
qed

lemma elementsOfRow_array:
  "i < length offs \<Longrightarrow> elementsOfRow (ArraySource d offs False n) i = rows_from 0 offs d ! i"
  by (cases i) (simp_all add: rows_from_nth Let_def)

lemma elementsOfRow_const:
  "elementsOfRow (ArraySource d offs True n) i = (case rows_from 0 offs d of [] \<Rightarrow> [] | row # _ \<Rightarrow> row)"
  by (cases offs) simp_all

lemma length_array_rows: "array_shaped c \<Longrightarrow> length (array_rows c) = column_size c"
  by (induction c rule: array_shaped.induct) (simp_all add: length_rows_from)

lemma array_rows_slice_rows:
  "array_rows (slice_rows src off len) =
     map (\<lambda>i. slice_row (elementsOfRow src i) (off i) (len i)) [0..<rowCount src]"
  by (simp add: slice_rows_def array_rows_write_rows)

lemma slice_rows_array:
  "array_rows (slice_rows (ArraySource d offs False (length offs)) off len) =
     map (\<lambda>i. slice_row (array_rows (ColumnArray d offs) ! i) (off i) (len i)) [0..<length offs]"
  by (simp add: array_rows_slice_rows elementsOfRow_array del: elementsOfRow.simps)

lemma slice_rows_const:
  "array_rows (slice_rows (ArraySource d offs True n) off len) =
     map (\<lambda>i. slice_row (array_rows (ColumnConst (ColumnArray d offs) n) ! i) (off i) (len i)) [0..<n]"
  by (simp add: array_rows_slice_rows elementsOfRow_const del: elementsOfRow.simps)

subsection \<open>Machine integers of the dispatcher\<close>

lemma mod_once: "0 \<le> x \<Longrightarrow> x < 2 * m \<Longrightarrow> (x :: int) mod m = (if x < m then x else x - m)"
proof (cases "x < m")
  case True
  assume "0 \<le> x"
  with True show ?thesis by simp
next
  case False
  assume "x < 2 * m"
  with False have b: "0 \<le> x - m" "x - m < m" by simp_all
  have "x mod m = (x - m) mod m" by (simp only: minus_mod_self2)
  also have "\<dots> = x - m" using b by (rule mod_pos_pos_trivial)
  finally show ?thesis using False by simp
qed

lemma sint_shift: "sint (w :: 64 word) = (uint w + 2 ^ 63) mod 2 ^ 64 - 2 ^ 63"
  by (simp add: sint_uint signed_take_bit_eq_take_bit_shift take_bit_eq_mod)

lemma sint_cases:
  "sint (w :: 64 word) = (if uint w < 2 ^ 63 then uint w else uint w - 2 ^ 64)"
proof -
  have u: "0 \<le> uint w" "uint w < 2 ^ 64"
    using uint_lt2p [of w] by simp_all
  have m: "(uint w + 2 ^ 63) mod 2 ^ 64 =
      (if uint w + 2 ^ 63 < 2 ^ 64 then uint w + 2 ^ 63 else uint w + 2 ^ 63 - 2 ^ 64)"
    using u by (intro mod_once) simp_all
  show ?thesis
    unfolding sint_shift m by simp
qed

lemma left_offset: "0 < sint (w :: 64 word) \<Longrightarrow> int (unat (w - 1)) + 1 = sint w"
proof -
  assume pos: "0 < sint w"
  have u: "0 \<le> uint w" "uint w < 2 ^ 64"
    using uint_lt2p [of w] by simp_all
  from pos u have eq: "sint w = uint w"
    by (simp add: sint_cases split: if_splits)
  from pos have nz: "w \<noteq> 0" by auto
  then have "unat (w - 1) = unat w - 1" by (rule unat_minus_one)
  moreover from nz have "unat w \<noteq> 0" by (simp add: unsigned_eq_0_iff)
  ultimately have "int (unat (w - 1)) + 1 = int (unat w)" by simp
  with eq show ?thesis by simp
qed

lemma right_offset: "\<not> 0 < sint (w :: 64 word) \<Longrightarrow> - int (unat (- w)) = sint w"
proof (cases "w = 0")
  case True
  then show ?thesis by simp
next
  case False
  assume np: "\<not> 0 < sint w"
  have u: "0 \<le> uint w" "uint w < 2 ^ 64"
    using uint_lt2p [of w] by simp_all
  from False have "uint w \<noteq> 0" by (simp add: unsigned_eq_0_iff)
  with u have nz: "0 < uint w" by arith
  with np have eq: "sint w = uint w - 2 ^ 64"
    by (simp add: sint_cases split: if_splits)
  have "uint (- w) = (- uint w) mod 2 ^ 64"
    by (simp add: uint_word_ariths)
  also have "\<dots> = (- uint w + 2 ^ 64) mod 2 ^ 64"
    by (simp only: mod_add_self2)
  also have "\<dots> = (2 ^ 64 - uint w) mod 2 ^ 64"
    by (simp only: uminus_add_conv_diff)
  also have "\<dots> = 2 ^ 64 - uint w"
    using nz u by (intro mod_pos_pos_trivial) simp_all
  finally have "int (unat (- w)) = 2 ^ 64 - uint w"
    by simp
  with eq show ?thesis by simp
qed

subsection \<open>The Index Resolver\<close>

lemma clamp_bounds: "1 \<le> clamp n x \<and> clamp n x \<le> int n + 1"
  by (simp add: clamp_def)

lemma range_bounds:
  "1 \<le> (S :: int) \<Longrightarrow> S \<le> int n + 1 \<Longrightarrow> 1 \<le> E \<Longrightarrow> E \<le> int n + 1 \<Longrightarrow>
   nat (S - 1) \<le> nat (max (S - 1) (E - 1)) \<and> nat (max (S - 1) (E - 1)) \<le> n"
  by arith

lemma resolve_bounds:
  "fst (resolve n off len) \<le> snd (resolve n off len) \<and> snd (resolve n off len) \<le> n"
proof (cases "off = None \<and> len = None")
  case True
  then show ?thesis by (simp add: resolve_def)
next
  case False
  then have "resolve n off len =
      (nat (clamp n (start_position n off) - 1),
       nat (max (clamp n (start_position n off) - 1) (clamp n (end_position n off len) - 1)))"
    by (auto simp add: resolve_def Let_def)
  then show ?thesis
    using clamp_bounds [of n "start_position n off"] clamp_bounds [of n "end_position n off len"]
      range_bounds [of "clamp n (start_position n off)" n "clamp n (end_position n off len)"]
    by simp
qed

lemma slice_row_range:
  "slice_row row off len =
     take (snd (resolve (length row) off len) - fst (resolve (length row) off len))
       (drop (fst (resolve (length row) off len)) row)"
  by (simp add: slice_row_def split: prod.splits)

lemma slice_row_identity: "slice_row row (Some 1) None = row"
  by (simp add: slice_row_def resolve_def start_position_def end_position_def clamp_def)

lemma length_slice_row:
  "length (slice_row row off len) = snd (resolve (length row) off len) - fst (resolve (length row) off len)"
  using resolve_bounds [of "length row" off len]
  by (auto simp add: slice_row_range min_def)

lemma nth_slice_row:
  "j < snd (resolve (length row) off len) - fst (resolve (length row) off len) \<Longrightarrow>
   slice_row row off len ! j = row ! (fst (resolve (length row) off len) + j)"
  using resolve_bounds [of "length row" off len]
  by (simp add: slice_row_range)

lemma resolve_negative_offset:
  "o' < 0 \<Longrightarrow> fst (resolve n (Some o') len) = nat (int n + o')"
  by (simp add: resolve_def Let_def start_position_def clamp_def)

lemma resolve_negative_length:
  "l < 0 \<Longrightarrow> snd (resolve n off (Some l)) = max (fst (resolve n off (Some l))) (nat (int n + l))"
  by (simp add: resolve_def Let_def end_position_def clamp_def max_def)

lemma slice_row_negative_length:
  "l < 0 \<Longrightarrow> slice_row row off (Some l) =
     drop (fst (resolve (length row) off (Some l))) (take (nat (int (length row) + l)) row)"
  by (simp add: slice_row_range resolve_negative_length drop_take max_def)


subsection \<open>The dispatcher resolves every row\<close>

lemma left_offset_uint: "0 < sint (w :: 64 word) \<Longrightarrow> uint (w - 1) + 1 = sint w"
  using left_offset [of w] by simp

lemma right_offset_uint: "\<not> 0 < sint (w :: 64 word) \<Longrightarrow> - uint (- w) = sint w"
  using right_offset [of w] by simp

lemma GatherUtils_simps:
  "sliceFromLeftConstantOffsetUnbounded GatherUtils src k =
     slice_rows src (\<lambda>i. Some (uint k + 1)) (\<lambda>i. None)"
  "sliceFromRightConstantOffsetUnbounded GatherUtils src k =
     slice_rows src (\<lambda>i. Some (- uint k)) (\<lambda>i. None)"
  "sliceFromLeftConstantOffsetBounded GatherUtils src k l =
     slice_rows src (\<lambda>i. Some (uint k + 1)) (\<lambda>i. Some (sint l))"
  "sliceFromRightConstantOffsetBounded GatherUtils src k l =
     slice_rows src (\<lambda>i. Some (- uint k)) (\<lambda>i. Some (sint l))"
  "sliceDynamicOffsetUnbounded GatherUtils src oc = slice_rows src (value_at oc) (\<lambda>i. None)"
  "sliceDynamicOffsetBounded GatherUtils src oc lc = slice_rows src (value_at oc) (value_at lc)"
  by (simp_all add: GatherUtils_def)

text \<open>What \<^verbatim>\<open>executeImpl\<close> does with a source, as one slicing of every row.\<close>

lemma executeImpl_source:
  assumes "\<not> onlyNull rt"
    and "arg0 = ColumnArray d offs \<and> c = False \<or> arg0 = ColumnConst (ColumnArray d offs) m \<and> c = True"
    and "\<not> (oc = ColumnNull \<and> length_absent lc)"
  shows "arraySlice_executeImpl GatherUtils rt arg0 oc lc k =
     Inr (slice_rows (ArraySource d offs c (column_size arg0)) (offset_param oc) (length_param lc))"
proof -
  have fn: "(\<lambda>i. value_at x i) = value_at x" for x by simp
  have op: "offset_param x = (if x = ColumnNull then (\<lambda>i. Some 1) else value_at x)" for x
    by (cases x) (auto simp: fun_eq_iff)
  have lp: "length_param (Some x) = value_at x" "length_param None = (\<lambda>i. None)" for x
    by (auto simp: fun_eq_iff)
  have vn: "value_at ColumnNull = (\<lambda>i. None)" and vc: "value_at (ColumnConstInt w n) = (\<lambda>i. Some (sint w))" for w n
    by (auto simp: fun_eq_iff)
  show ?thesis
  proof (cases oc)
    case ColumnNull
    with assms(3) obtain x where lc: "lc = Some x" "x \<noteq> ColumnNull"
      by (cases lc rule: length_absent.cases) auto
    then show ?thesis
      using assms(1,2) ColumnNull
      by (cases x) (auto simp: arraySlice_executeImpl_def GatherUtils_simps op lp vc)
  next
    case (ColumnConstInt w n)
    show ?thesis
    proof (cases "0 < sint w")
      case True
      then show ?thesis
        using assms(1,2) ColumnConstInt
        by (cases lc rule: length_absent.cases)
          (auto simp: arraySlice_executeImpl_def GatherUtils_simps op lp vc vn left_offset_uint)
    next
      case False
      then show ?thesis
        using assms(1,2) ColumnConstInt
        by (cases lc rule: length_absent.cases)
          (auto simp: arraySlice_executeImpl_def GatherUtils_simps op lp vc vn right_offset_uint)
    qed
  next
    case (ColumnInt ws)
    then show ?thesis
      using assms(1,2)
      by (cases lc rule: length_absent.cases)
        (auto simp: arraySlice_executeImpl_def GatherUtils_simps op lp vc vn)
  qed
qed

lemma array_shaped_cases:
  assumes "array_shaped arg0"
  obtains d offs where "arg0 = ColumnArray d offs"
  | d offs m where "arg0 = ColumnConst (ColumnArray d offs) m"
  using assms by (cases arg0 rule: array_shaped.cases) auto

lemma executeImpl_identity:
  assumes "\<not> onlyNull rt" and "array_shaped arg0" and "length_absent lc"
  shows "arraySlice_executeImpl gu rt arg0 ColumnNull lc k = Inr arg0"
  using assms(2)
proof (cases rule: array_shaped_cases)
  case 1
  with assms(1,3) show ?thesis
    by (cases lc rule: length_absent.cases) (simp_all add: arraySlice_executeImpl_def)
next
  case 2
  with assms(1,3) show ?thesis
    by (cases lc rule: length_absent.cases) (simp_all add: arraySlice_executeImpl_def)
qed

lemma length_param_absent: "length_absent lc \<Longrightarrow> length_param lc i = None"
  by (cases lc rule: length_absent.cases) simp_all

lemma executeImpl_rows:
  assumes "\<not> onlyNull rt" and "array_shaped arg0"
  shows "\<exists>sink. arraySlice_executeImpl GatherUtils rt arg0 oc lc k = Inr sink \<and>
     array_rows sink =
       map (\<lambda>i. slice_row (array_rows arg0 ! i) (offset_param oc i) (length_param lc i))
         [0..<column_size arg0]"
proof (cases "oc = ColumnNull \<and> length_absent lc")
  case True
  have "map (\<lambda>i. slice_row (array_rows arg0 ! i) (offset_param oc i) (length_param lc i))
         [0..<column_size arg0] = map (\<lambda>i. array_rows arg0 ! i) [0..<length (array_rows arg0)]"
    using True assms(2) by (simp add: length_param_absent slice_row_identity length_array_rows)
  also have "\<dots> = array_rows arg0"
    by (rule map_nth)
  finally show ?thesis
    using True executeImpl_identity [OF assms, of lc] by simp
next
  case False
  from assms(2) show ?thesis
  proof (cases rule: array_shaped_cases)
    case (1 d offs)
    then have "arraySlice_executeImpl GatherUtils rt arg0 oc lc k =
        Inr (slice_rows (ArraySource d offs False (column_size arg0)) (offset_param oc) (length_param lc))"
      using executeImpl_source [OF assms(1) _ False, of arg0 d offs False] by simp
    with 1 show ?thesis
      using slice_rows_array [of d offs "offset_param oc" "length_param lc"] by simp
  next
    case (2 d offs m)
    then have "arraySlice_executeImpl GatherUtils rt arg0 oc lc k =
        Inr (slice_rows (ArraySource d offs True (column_size arg0)) (offset_param oc) (length_param lc))"
      using executeImpl_source [OF assms(1) _ False, of arg0 d offs True m] by simp
    with 2 show ?thesis
      using slice_rows_const [of d offs m "offset_param oc" "length_param lc"] by simp
  qed
qed


lemma executeImpl_row_at:
  fixes arg0 :: "('a, 'v) column"
  assumes "\<not> onlyNull rt" and "array_shaped arg0"
  shows "\<exists>sink. arraySlice_executeImpl GatherUtils rt arg0 oc lc k = Inr sink \<and>
     length (array_rows sink) = length (array_rows arg0) \<and>
     (\<forall>i<length (array_rows arg0).
        array_rows sink ! i =
          slice_row (array_rows arg0 ! i) (offset_param oc i) (length_param lc i))"
proof -
  from executeImpl_rows [OF assms, of oc lc k] obtain sink where
    s: "arraySlice_executeImpl GatherUtils rt arg0 oc lc k = Inr sink"
    and r: "array_rows sink =
       map (\<lambda>i. slice_row (array_rows arg0 ! i) (offset_param oc i) (length_param lc i))
         [0..<column_size arg0]"
    by blast
  have n: "column_size arg0 = length (array_rows arg0)"
    using assms(2) by (simp add: length_array_rows)
  from r n have "length (array_rows sink) = length (array_rows arg0)" by simp
  moreover from r n have "\<forall>i<length (array_rows arg0).
        array_rows sink ! i =
          slice_row (array_rows arg0 ! i) (offset_param oc i) (length_param lc i)"
    by simp
  ultimately show ?thesis using s by blast
qed

text \<open>One row with a constant offset and a constant length, for the examples.\<close>

lemma executeImpl_single_row:
  fixes row :: "'a list" and rt :: "'v data_type"
  assumes "\<not> onlyNull rt"
  shows "arraySlice_executeImpl GatherUtils rt (ColumnArray row [length row])
           (ColumnConstInt w m) (Some (ColumnConstInt v m')) k =
         Inr (ColumnArray (slice_row row (Some (sint w)) (Some (sint v)))
                [length (slice_row row (Some (sint w)) (Some (sint v)))])"
proof -
  have "arraySlice_executeImpl GatherUtils rt (ColumnArray row [length row])
           (ColumnConstInt w m) (Some (ColumnConstInt v m')) k =
        Inr (slice_rows (ArraySource row [length row] False (column_size (ColumnArray row [length row] :: ('a, 'v) column)))
               (offset_param (ColumnConstInt w m)) (length_param (Some (ColumnConstInt v m'))))"
    by (rule executeImpl_source [OF assms, where m = 0]) simp_all
  then show ?thesis
    by (simp add: slice_rows_def write_rows_def)
qed



section \<open>The dispatcher of arraySlice\<close>

text \<open>
  C2. When the offset column is only-null and the length column is missing or only-null,
  \<^verbatim>\<open>executeImpl\<close> returns its first argument itself, whatever the slicing routines are:
  the identity on every array column, rows of length zero included.
\<close>

theorem arraySlice_identity:
  assumes "\<not> onlyNull rt" and "array_shaped arg0" and "length_absent lc"
  shows "arraySlice_executeImpl gu rt arg0 ColumnNull lc k = Inr arg0"
  using assms by (rule executeImpl_identity)

theorem arraySlice_identity_witness:
  "arraySlice_executeImpl GatherUtils
     \<lparr> onlyNull = False, isArray = True, isInteger = False, defaultValue = () \<rparr>
     (ColumnArray [1, 2, 3 :: int] [0, 3]) ColumnNull (Some ColumnNull) 2 =
   Inr (ColumnArray [1, 2, 3] [0, 3])"
  using arraySlice_identity [of "\<lparr> onlyNull = False, isArray = True, isInteger = False, defaultValue = () \<rparr>"
      "ColumnArray [1, 2, 3 :: int] [0, 3]" "Some ColumnNull" GatherUtils 2]
  by simp

text \<open>
  C9. When the type of the array argument is only-null, \<^verbatim>\<open>getReturnTypeImpl\<close> returns
  that type, and \<^verbatim>\<open>executeImpl\<close> with it as return type returns at once the constant
  column over the type's default value, of the size \<open>input_rows_count\<close>: for every
  first argument (array-shaped or not), every offset and length column and every
  implementation of the slicing routines, none of which is consulted.
\<close>

theorem arraySlice_only_null_argument:
  assumes "length arguments = 2 \<or> length arguments = 3" and "onlyNull (arguments ! 0)"
  shows "arraySlice_getReturnTypeImpl arguments = Inr (arguments ! 0) \<and>
         arraySlice_executeImpl gu (arguments ! 0) arg0 offset_column length_column input_rows_count =
           Inr (ColumnConst (ColumnPlain [defaultValue (arguments ! 0)]) input_rows_count) \<and>
         column_size (ColumnConst (ColumnPlain [defaultValue (arguments ! 0)]) input_rows_count :: ('a, 'v) column) =
           input_rows_count"
  using assms
  by (auto simp add: arraySlice_getReturnTypeImpl_def arraySlice_executeImpl_def
      createColumnConstWithDefaultValue_def Let_def)

theorem arraySlice_only_null_argument_witness:
  "arraySlice_getReturnTypeImpl
     [\<lparr> onlyNull = True, isArray = False, isInteger = False, defaultValue = None \<rparr>,
      \<lparr> onlyNull = False, isArray = False, isInteger = True, defaultValue = Some (0 :: int) \<rparr>] =
     Inr \<lparr> onlyNull = True, isArray = False, isInteger = False, defaultValue = None \<rparr> \<and>
   arraySlice_executeImpl GatherUtils
     \<lparr> onlyNull = True, isArray = False, isInteger = False, defaultValue = None \<rparr>
     (ColumnPlain [None, None, None :: int option] :: (int, int option) column) (ColumnConstInt 1 3) None 3 =
     Inr (ColumnConst (ColumnPlain [None]) 3)"
  using arraySlice_only_null_argument
    [of "[\<lparr> onlyNull = True, isArray = False, isInteger = False, defaultValue = None \<rparr>,
          \<lparr> onlyNull = False, isArray = False, isInteger = True, defaultValue = Some (0 :: int) \<rparr>]"
        GatherUtils "ColumnPlain [None, None, None :: int option] :: (int, int option) column"
        "ColumnConstInt 1 3" None 3]
  by simp

text \<open>
  C3. With an only-null offset column and a full (per-row) length column,
  \<^verbatim>\<open>executeImpl\<close> calls \<^verbatim>\<open>sliceDynamicOffsetBounded\<close> on the source, a constant column
  of the value 1 of the size of the array column, and the length column, whatever the
  slicing routines are; that offset column reads 1 at every row; and with the routines of
  the specification the result has one row per row of the argument, row \<open>i\<close> being the
  slice of row \<open>i\<close> with offset 1 and the length the column holds at \<open>i\<close>.
\<close>

theorem arraySlice_null_offset_dynamic_length:
  fixes arg0 :: "('a, 'v) column"
  assumes "\<not> onlyNull rt"
    and "arg0 = ColumnArray d offs \<and> c = False \<or> arg0 = ColumnConst (ColumnArray d offs) m \<and> c = True"
  shows "arraySlice_executeImpl gu rt arg0 ColumnNull (Some (ColumnInt lens)) k =
           Inr (sliceDynamicOffsetBounded gu (ArraySource d offs c (column_size arg0))
                  (ColumnConstInt 1 (column_size arg0)) (ColumnInt lens)) \<and>
         (\<forall>i. value_at (ColumnConstInt 1 (column_size arg0)) i = Some 1) \<and>
         (\<exists>sink. arraySlice_executeImpl GatherUtils rt arg0 ColumnNull (Some (ColumnInt lens)) k = Inr sink \<and>
            length (array_rows sink) = column_size arg0 \<and>
            (\<forall>i<column_size arg0. i < length lens \<longrightarrow>
               array_rows sink ! i = slice_row (array_rows arg0 ! i) (Some 1) (Some (sint (lens ! i)))))"
proof -
  have route: "arraySlice_executeImpl gu rt arg0 ColumnNull (Some (ColumnInt lens)) k =
           Inr (sliceDynamicOffsetBounded gu (ArraySource d offs c (column_size arg0))
                  (ColumnConstInt 1 (column_size arg0)) (ColumnInt lens))" for gu :: "('a, 'v) gather_utils"
    using assms by (auto simp add: arraySlice_executeImpl_def Let_def)
  from assms(2) have shaped: "array_shaped arg0" by auto
  from executeImpl_rows [OF assms(1) shaped, of ColumnNull "Some (ColumnInt lens)" k]
  obtain sink where s: "arraySlice_executeImpl GatherUtils rt arg0 ColumnNull (Some (ColumnInt lens)) k = Inr sink"
    and r: "array_rows sink = map (\<lambda>i. slice_row (array_rows arg0 ! i) (offset_param ColumnNull i)
               (length_param (Some (ColumnInt lens)) i)) [0..<column_size arg0]"
    by blast
  from r have "length (array_rows sink) = column_size arg0"
    and "\<forall>i<column_size arg0. i < length lens \<longrightarrow>
               array_rows sink ! i = slice_row (array_rows arg0 ! i) (Some 1) (Some (sint (lens ! i)))"
    by simp_all
  with s route show ?thesis by simp
qed

theorem arraySlice_null_offset_dynamic_length_witness:
  "\<exists>sink. arraySlice_executeImpl GatherUtils
       \<lparr> onlyNull = False, isArray = True, isInteger = False, defaultValue = () \<rparr>
       (ColumnArray [1, 2, 3, 4, 5 :: int] [3, 5]) ColumnNull (Some (ColumnInt [2, - 1])) 2 = Inr sink \<and>
     array_rows sink ! 0 = [1, 2] \<and> array_rows sink ! 1 = [4]"
proof -
  let ?rt = "\<lparr> onlyNull = False, isArray = True, isInteger = False, defaultValue = () \<rparr>"
  let ?arg0 = "ColumnArray [1, 2, 3, 4, 5 :: int] [3, 5] :: (int, unit) column"
  have h1: "\<not> onlyNull ?rt" by simp
  have h2: "?arg0 = ColumnArray [1, 2, 3, 4, 5] [3, 5] \<and> False = False \<or>
            ?arg0 = ColumnConst (ColumnArray [1, 2, 3, 4, 5] [3, 5]) 0 \<and> False = True"
    by simp
  from arraySlice_null_offset_dynamic_length [OF h1 h2, of GatherUtils "[2, - 1]" 2]
  obtain sink where s: "arraySlice_executeImpl GatherUtils ?rt ?arg0 ColumnNull (Some (ColumnInt [2, - 1])) 2 = Inr sink"
    and r: "\<forall>i<column_size ?arg0. i < length [2, - 1 :: 64 word] \<longrightarrow>
               array_rows sink ! i = slice_row (array_rows ?arg0 ! i) (Some 1) (Some (sint ([2, - 1 :: 64 word] ! i)))"
    by blast
  from r have "array_rows sink ! 0 = slice_row [1, 2, 3] (Some 1) (Some 2)"
    by simp
  moreover from r have "array_rows sink ! 1 = slice_row [4, 5] (Some 1) (Some (- 1))"
    by simp
  moreover have "slice_row [1, 2, 3 :: int] (Some 1) (Some 2) = [1, 2]"
    by (simp add: slice_row_def resolve_def start_position_def end_position_def clamp_def)
  moreover have "slice_row [4, 5 :: int] (Some 1) (Some (- 1)) = [4]"
    by (simp add: slice_row_def resolve_def start_position_def end_position_def clamp_def)
  ultimately show ?thesis using s by simp
qed

section \<open>Slicing with the routines of the specification\<close>

text \<open>
  C1. The Index Resolver returns for every row length \<open>n\<close> and every offset and length,
  absent or any integer, a range with \<open>0 \<le> start \<le> end \<le> n\<close>; and on every array-shaped
  column, with every offset column and every length column (only-null, constant or per
  row, of any 64-bit values), \<^verbatim>\<open>executeImpl\<close> returns a column and no error, with one row
  per row of the argument, row \<open>i\<close> having exactly \<open>end - start\<close> elements for the range
  resolved from the length of row \<open>i\<close> and the offset and length of that row.
\<close>

theorem arraySlice_bounds_never_throw:
  fixes arg0 :: "('a, 'v) column"
  assumes "\<not> onlyNull rt" and "array_shaped arg0"
  shows "(\<forall>n off len. fst (resolve n off len) \<le> snd (resolve n off len) \<and> snd (resolve n off len) \<le> n) \<and>
    (\<exists>sink. arraySlice_executeImpl GatherUtils rt arg0 oc lc k = Inr sink \<and>
       length (array_rows sink) = length (array_rows arg0) \<and>
       (\<forall>i<length (array_rows arg0).
          length (array_rows sink ! i) =
            snd (resolve (length (array_rows arg0 ! i)) (offset_param oc i) (length_param lc i)) -
            fst (resolve (length (array_rows arg0 ! i)) (offset_param oc i) (length_param lc i))))"
proof -
  from executeImpl_row_at [OF assms, of oc lc k] obtain sink where
    s: "arraySlice_executeImpl GatherUtils rt arg0 oc lc k = Inr sink"
    and l: "length (array_rows sink) = length (array_rows arg0)"
    and r: "\<forall>i<length (array_rows arg0).
        array_rows sink ! i =
          slice_row (array_rows arg0 ! i) (offset_param oc i) (length_param lc i)"
    by blast
  from r have "\<forall>i<length (array_rows arg0).
          length (array_rows sink ! i) =
            snd (resolve (length (array_rows arg0 ! i)) (offset_param oc i) (length_param lc i)) -
            fst (resolve (length (array_rows arg0 ! i)) (offset_param oc i) (length_param lc i))"
    by (simp add: length_slice_row)
  with s l show ?thesis
    using resolve_bounds by blast
qed

theorem arraySlice_bounds_never_throw_witness:
  "\<exists>sink. arraySlice_executeImpl GatherUtils
       \<lparr> onlyNull = False, isArray = True, isInteger = False, defaultValue = () \<rparr>
       (ColumnArray [1, 2, 3 :: int] [3]) (ColumnConstInt 5 1) (Some (ColumnConstInt 2 1)) 1 = Inr sink \<and>
     length (array_rows sink) = 1 \<and> length (array_rows sink ! 0) = 0"
proof -
  let ?rt = "\<lparr> onlyNull = False, isArray = True, isInteger = False, defaultValue = () \<rparr>"
  let ?arg0 = "ColumnArray [1, 2, 3 :: int] [3] :: (int, unit) column"
  have h1: "\<not> onlyNull ?rt" by simp
  have h2: "array_shaped ?arg0" by simp
  from arraySlice_bounds_never_throw [OF h1 h2, of "ColumnConstInt 5 1" "Some (ColumnConstInt 2 1)" 1]
  obtain sink where s: "arraySlice_executeImpl GatherUtils ?rt ?arg0 (ColumnConstInt 5 1) (Some (ColumnConstInt 2 1)) 1 = Inr sink"
    and l: "length (array_rows sink) = length (array_rows ?arg0)"
    and r: "\<forall>i<length (array_rows ?arg0).
          length (array_rows sink ! i) =
            snd (resolve (length (array_rows ?arg0 ! i)) (offset_param (ColumnConstInt 5 1) i) (length_param (Some (ColumnConstInt 2 1)) i)) -
            fst (resolve (length (array_rows ?arg0 ! i)) (offset_param (ColumnConstInt 5 1) i) (length_param (Some (ColumnConstInt 2 1)) i))"
    by blast
  from r have "length (array_rows sink ! 0) = 0"
    by (simp add: resolve_def start_position_def end_position_def clamp_def)
  with s l show ?thesis by simp
qed

text \<open>
  C4. For a constant offset \<open>o < 0\<close> the 1-based start position of a row of length \<open>n\<close> is
  \<open>n + o + 1\<close>, and every row of the result starts at the 0-based position \<open>n + o\<close> of its
  row (at 0 when that is negative) and runs to the resolved end; in particular
  \<open>slice([1,2,3,4,5,6], -4, 2) = [3,4]\<close>, and offset \<open>-1\<close> without a length selects the
  last element.
\<close>

theorem arraySlice_negative_offset:
  fixes arg0 :: "('a, 'v) column"
  assumes "\<not> onlyNull rt" and "array_shaped arg0" and "sint w < 0"
  shows "(\<forall>n. start_position n (Some (sint w)) = int n + sint w + 1) \<and>
    (\<exists>sink. arraySlice_executeImpl GatherUtils rt arg0 (ColumnConstInt w m) lc k = Inr sink \<and>
       length (array_rows sink) = length (array_rows arg0) \<and>
       (\<forall>i<length (array_rows arg0).
          array_rows sink ! i =
            take (snd (resolve (length (array_rows arg0 ! i)) (Some (sint w)) (length_param lc i)) -
                    nat (int (length (array_rows arg0 ! i)) + sint w))
              (drop (nat (int (length (array_rows arg0 ! i)) + sint w)) (array_rows arg0 ! i)))) \<and>
    arraySlice_executeImpl GatherUtils rt (ColumnArray [1, 2, 3, 4, 5, 6 :: int] [6])
       (ColumnConstInt (- 4) 1) (Some (ColumnConstInt 2 1)) 1 = Inr (ColumnArray [3, 4] [2]) \<and>
    arraySlice_executeImpl GatherUtils rt (ColumnArray [1, 2, 3, 4, 5, 6 :: int] [6])
       (ColumnConstInt (- 1) 1) None 1 = Inr (ColumnArray [6] [1])"
proof -
  have start: "\<forall>n. start_position n (Some (sint w)) = int n + sint w + 1"
    using assms(3) by (simp add: start_position_def)
  from executeImpl_row_at [OF assms(1,2), of "ColumnConstInt w m" lc k] obtain sink where
    s: "arraySlice_executeImpl GatherUtils rt arg0 (ColumnConstInt w m) lc k = Inr sink"
    and l: "length (array_rows sink) = length (array_rows arg0)"
    and r: "\<forall>i<length (array_rows arg0).
        array_rows sink ! i =
          slice_row (array_rows arg0 ! i) (offset_param (ColumnConstInt w m) i) (length_param lc i)"
    by blast
  from r assms(3) have rows: "\<forall>i<length (array_rows arg0).
          array_rows sink ! i =
            take (snd (resolve (length (array_rows arg0 ! i)) (Some (sint w)) (length_param lc i)) -
                    nat (int (length (array_rows arg0 ! i)) + sint w))
              (drop (nat (int (length (array_rows arg0 ! i)) + sint w)) (array_rows arg0 ! i))"
    by (simp add: slice_row_range resolve_negative_offset)
  have ex1: "arraySlice_executeImpl GatherUtils rt (ColumnArray [1, 2, 3, 4, 5, 6 :: int] [6])
       (ColumnConstInt (- 4) 1) (Some (ColumnConstInt 2 1)) 1 = Inr (ColumnArray [3, 4] [2])"
    using executeImpl_single_row [OF assms(1), of "[1, 2, 3, 4, 5, 6 :: int]" "- 4" 1 2 1 1]
    by (simp add: slice_row_def resolve_def start_position_def end_position_def clamp_def
        eval_nat_numeral)
  have "arraySlice_executeImpl GatherUtils rt (ColumnArray [1, 2, 3, 4, 5, 6 :: int] [6])
       (ColumnConstInt (- 1) 1) None 1 =
     Inr (slice_rows (ArraySource [1, 2, 3, 4, 5, 6] [6] False
             (column_size (ColumnArray [1, 2, 3, 4, 5, 6 :: int] [6] :: (int, 'v) column)))
           (offset_param (ColumnConstInt (- 1) 1)) (length_param None))"
    by (rule executeImpl_source [OF assms(1), where m = 0]) simp_all
  then have ex2: "arraySlice_executeImpl GatherUtils rt (ColumnArray [1, 2, 3, 4, 5, 6 :: int] [6])
       (ColumnConstInt (- 1) 1) None 1 = Inr (ColumnArray [6] [1])"
    by (simp add: slice_rows_def write_rows_def slice_row_def resolve_def start_position_def
        end_position_def clamp_def)
  from start s l rows ex1 ex2 show ?thesis by blast
qed

theorem arraySlice_negative_offset_witness:
  "\<exists>sink. arraySlice_executeImpl GatherUtils
       \<lparr> onlyNull = False, isArray = True, isInteger = False, defaultValue = () \<rparr>
       (ColumnArray [1, 2, 3, 4, 5 :: int] [2, 5]) (ColumnConstInt (- 2) 2) None 2 = Inr sink \<and>
     array_rows sink ! 0 = [1, 2] \<and> array_rows sink ! 1 = [4, 5]"
proof -
  let ?rt = "\<lparr> onlyNull = False, isArray = True, isInteger = False, defaultValue = () \<rparr>"
  let ?arg0 = "ColumnArray [1, 2, 3, 4, 5 :: int] [2, 5] :: (int, unit) column"
  have h1: "\<not> onlyNull ?rt" by simp
  have h2: "array_shaped ?arg0" by simp
  have h3: "sint (- 2 :: 64 word) < 0" by simp
  from arraySlice_negative_offset [OF h1 h2 h3, of 2 None 2]
  obtain sink where s: "arraySlice_executeImpl GatherUtils ?rt ?arg0 (ColumnConstInt (- 2) 2) None 2 = Inr sink"
    and r: "\<forall>i<length (array_rows ?arg0).
          array_rows sink ! i =
            take (snd (resolve (length (array_rows ?arg0 ! i)) (Some (sint (- 2 :: 64 word))) (length_param None i)) -
                    nat (int (length (array_rows ?arg0 ! i)) + sint (- 2 :: 64 word)))
              (drop (nat (int (length (array_rows ?arg0 ! i)) + sint (- 2 :: 64 word))) (array_rows ?arg0 ! i))"
    by blast
  from r have "array_rows sink ! 0 = [1, 2]"
    by (simp add: resolve_def start_position_def end_position_def clamp_def)
  moreover from r have "array_rows sink ! 1 = [4, 5]"
    by (simp add: resolve_def start_position_def end_position_def clamp_def)
  ultimately show ?thesis using s by blast
qed

text \<open>
  C5. For a constant length \<open>l < 0\<close> the exclusive 1-based end position of a row of length
  \<open>n\<close> is \<open>n + l + 1\<close> whatever the offset, and every row of the result is what is left of
  the first \<open>n + l\<close> elements of its row (none when that is negative) after dropping those
  before the resolved start, for every offset column; in particular
  \<open>slice([1,2,3,4,5,6], 2, -1) = [2,3,4,5]\<close>.
\<close>

theorem arraySlice_negative_length:
  fixes arg0 :: "('a, 'v) column"
  assumes "\<not> onlyNull rt" and "array_shaped arg0" and "sint v < 0"
  shows "(\<forall>n off. end_position n off (Some (sint v)) = int n + sint v + 1) \<and>
    (\<exists>sink. arraySlice_executeImpl GatherUtils rt arg0 oc (Some (ColumnConstInt v m)) k = Inr sink \<and>
       length (array_rows sink) = length (array_rows arg0) \<and>
       (\<forall>i<length (array_rows arg0).
          array_rows sink ! i =
            drop (fst (resolve (length (array_rows arg0 ! i)) (offset_param oc i) (Some (sint v))))
              (take (nat (int (length (array_rows arg0 ! i)) + sint v)) (array_rows arg0 ! i)))) \<and>
    arraySlice_executeImpl GatherUtils rt (ColumnArray [1, 2, 3, 4, 5, 6 :: int] [6])
       (ColumnConstInt 2 1) (Some (ColumnConstInt (- 1) 1)) 1 = Inr (ColumnArray [2, 3, 4, 5] [4])"
proof -
  have e: "\<forall>n off. end_position n off (Some (sint v)) = int n + sint v + 1"
    using assms(3) by (simp add: end_position_def)
  from executeImpl_row_at [OF assms(1,2), of oc "Some (ColumnConstInt v m)" k] obtain sink where
    s: "arraySlice_executeImpl GatherUtils rt arg0 oc (Some (ColumnConstInt v m)) k = Inr sink"
    and l: "length (array_rows sink) = length (array_rows arg0)"
    and r: "\<forall>i<length (array_rows arg0).
        array_rows sink ! i =
          slice_row (array_rows arg0 ! i) (offset_param oc i) (length_param (Some (ColumnConstInt v m)) i)"
    by blast
  from r assms(3) have rows: "\<forall>i<length (array_rows arg0).
          array_rows sink ! i =
            drop (fst (resolve (length (array_rows arg0 ! i)) (offset_param oc i) (Some (sint v))))
              (take (nat (int (length (array_rows arg0 ! i)) + sint v)) (array_rows arg0 ! i))"
    by (simp add: slice_row_negative_length)
  have ex1: "arraySlice_executeImpl GatherUtils rt (ColumnArray [1, 2, 3, 4, 5, 6 :: int] [6])
       (ColumnConstInt 2 1) (Some (ColumnConstInt (- 1) 1)) 1 = Inr (ColumnArray [2, 3, 4, 5] [4])"
    using executeImpl_single_row [OF assms(1), of "[1, 2, 3, 4, 5, 6 :: int]" 2 1 "- 1" 1 1]
    by (simp add: slice_row_def resolve_def start_position_def end_position_def clamp_def
        eval_nat_numeral)
  from e s l rows ex1 show ?thesis by blast
qed

theorem arraySlice_negative_length_witness:
  "\<exists>sink. arraySlice_executeImpl GatherUtils
       \<lparr> onlyNull = False, isArray = True, isInteger = False, defaultValue = () \<rparr>
       (ColumnArray [1, 2, 3, 4, 5 :: int] [2, 5]) ColumnNull (Some (ColumnConstInt (- 1) 2)) 2 = Inr sink \<and>
     array_rows sink ! 0 = [1] \<and> array_rows sink ! 1 = [3, 4]"
proof -
  let ?rt = "\<lparr> onlyNull = False, isArray = True, isInteger = False, defaultValue = () \<rparr>"
  let ?arg0 = "ColumnArray [1, 2, 3, 4, 5 :: int] [2, 5] :: (int, unit) column"
  have h1: "\<not> onlyNull ?rt" by simp
  have h2: "array_shaped ?arg0" by simp
  have h3: "sint (- 1 :: 64 word) < 0" by simp
  from arraySlice_negative_length [OF h1 h2 h3, of ColumnNull 2 2]
  obtain sink where s: "arraySlice_executeImpl GatherUtils ?rt ?arg0 ColumnNull (Some (ColumnConstInt (- 1) 2)) 2 = Inr sink"
    and r: "\<forall>i<length (array_rows ?arg0).
          array_rows sink ! i =
            drop (fst (resolve (length (array_rows ?arg0 ! i)) (offset_param ColumnNull i) (Some (sint (- 1 :: 64 word)))))
              (take (nat (int (length (array_rows ?arg0 ! i)) + sint (- 1 :: 64 word))) (array_rows ?arg0 ! i))"
    by blast
  from r have "array_rows sink ! 0 = [1]"
    by (simp add: resolve_def start_position_def end_position_def clamp_def)
  moreover from r have "array_rows sink ! 1 = [3, 4]"
    by (simp add: resolve_def start_position_def end_position_def clamp_def)
  ultimately show ?thesis using s by blast
qed



text \<open>
  C7. Element fidelity: on every array-shaped column, with every offset and length
  column, row \<open>i\<close> of the result has exactly the elements of the resolved range of row
  \<open>i\<close> of the argument, each at its place: the element at position \<open>j\<close> of the result is
  the element at position \<open>start + j\<close> of the row, null markers included (an element is
  any value, \<open>None\<close> for a null); in particular
  \<open>slice([1,2,NULL,4,5], 2, 3) = [2,NULL,4]\<close>.
\<close>

theorem arraySlice_element_fidelity:
  fixes arg0 :: "('a, 'v) column"
  assumes "\<not> onlyNull rt" and "array_shaped arg0"
  shows "(\<exists>sink. arraySlice_executeImpl GatherUtils rt arg0 oc lc k = Inr sink \<and>
       length (array_rows sink) = length (array_rows arg0) \<and>
       (\<forall>i<length (array_rows arg0).
          length (array_rows sink ! i) =
            snd (resolve (length (array_rows arg0 ! i)) (offset_param oc i) (length_param lc i)) -
            fst (resolve (length (array_rows arg0 ! i)) (offset_param oc i) (length_param lc i)) \<and>
          (\<forall>j<length (array_rows sink ! i).
             array_rows sink ! i ! j =
               array_rows arg0 ! i !
                 (fst (resolve (length (array_rows arg0 ! i)) (offset_param oc i) (length_param lc i)) + j)))) \<and>
    arraySlice_executeImpl GatherUtils rt
       (ColumnArray [Some 1, Some 2, None, Some 4, Some (5 :: int)] [5])
       (ColumnConstInt 2 1) (Some (ColumnConstInt 3 1)) 1 = Inr (ColumnArray [Some 2, None, Some 4] [3])"
proof -
  from executeImpl_row_at [OF assms, of oc lc k] obtain sink where
    s: "arraySlice_executeImpl GatherUtils rt arg0 oc lc k = Inr sink"
    and l: "length (array_rows sink) = length (array_rows arg0)"
    and r: "\<forall>i<length (array_rows arg0).
        array_rows sink ! i =
          slice_row (array_rows arg0 ! i) (offset_param oc i) (length_param lc i)"
    by blast
  from r have rows: "\<forall>i<length (array_rows arg0).
          length (array_rows sink ! i) =
            snd (resolve (length (array_rows arg0 ! i)) (offset_param oc i) (length_param lc i)) -
            fst (resolve (length (array_rows arg0 ! i)) (offset_param oc i) (length_param lc i)) \<and>
          (\<forall>j<length (array_rows sink ! i).
             array_rows sink ! i ! j =
               array_rows arg0 ! i !
                 (fst (resolve (length (array_rows arg0 ! i)) (offset_param oc i) (length_param lc i)) + j))"
    by (simp add: length_slice_row nth_slice_row)
  have ex1: "arraySlice_executeImpl GatherUtils rt
       (ColumnArray [Some 1, Some 2, None, Some 4, Some (5 :: int)] [5])
       (ColumnConstInt 2 1) (Some (ColumnConstInt 3 1)) 1 = Inr (ColumnArray [Some 2, None, Some 4] [3])"
    using executeImpl_single_row [OF assms(1), of "[Some 1, Some 2, None, Some 4, Some (5 :: int)]" 2 1 3 1 1]
    by (simp add: slice_row_def resolve_def start_position_def end_position_def clamp_def
        eval_nat_numeral)
  from s l rows ex1 show ?thesis by blast
qed

theorem arraySlice_element_fidelity_witness:
  "\<exists>sink. arraySlice_executeImpl GatherUtils
       \<lparr> onlyNull = False, isArray = True, isInteger = False, defaultValue = () \<rparr>
       (ColumnArray [Some 7, None, Some (9 :: int)] [3]) (ColumnConstInt 2 1) None 1 = Inr sink \<and>
     array_rows sink ! 0 ! 0 = None \<and> array_rows sink ! 0 ! 1 = Some 9"
proof -
  let ?rt = "\<lparr> onlyNull = False, isArray = True, isInteger = False, defaultValue = () \<rparr>"
  let ?arg0 = "ColumnArray [Some 7, None, Some (9 :: int)] [3] :: (int option, unit) column"
  have h1: "\<not> onlyNull ?rt" by simp
  have h2: "array_shaped ?arg0" by simp
  from arraySlice_element_fidelity [OF h1 h2, of "ColumnConstInt 2 1" None 1]
  obtain sink where s: "arraySlice_executeImpl GatherUtils ?rt ?arg0 (ColumnConstInt 2 1) None 1 = Inr sink"
    and l: "length (array_rows sink) = length (array_rows ?arg0)"
    and r: "\<forall>i<length (array_rows ?arg0).
          length (array_rows sink ! i) =
            snd (resolve (length (array_rows ?arg0 ! i)) (offset_param (ColumnConstInt 2 1) i) (length_param None i)) -
            fst (resolve (length (array_rows ?arg0 ! i)) (offset_param (ColumnConstInt 2 1) i) (length_param None i)) \<and>
          (\<forall>j<length (array_rows sink ! i).
             array_rows sink ! i ! j =
               array_rows ?arg0 ! i !
                 (fst (resolve (length (array_rows ?arg0 ! i)) (offset_param (ColumnConstInt 2 1) i) (length_param None i)) + j))"
    by blast
  from r have n: "length (array_rows sink ! 0) = 2"
    by (simp add: resolve_def start_position_def end_position_def clamp_def)
  from r n have "array_rows sink ! 0 ! 0 = None" "array_rows sink ! 0 ! 1 = Some 9"
    by (simp_all add: resolve_def start_position_def end_position_def clamp_def)
  with s show ?thesis by blast
qed

section \<open>Properties of arrayEnumerate\<close>

lemma enumerate_row_result:
  "prev_off \<le> j \<Longrightarrow> j \<le> off \<Longrightarrow> off \<le> length res \<Longrightarrow>
   enumerate_row prev_off off j res =
     Inr (take j res @ map (\<lambda>k. of_nat (k - prev_off + 1)) [j..<off] @ drop off res)"
proof (induction prev_off off j res rule: enumerate_row.induct)
  case (1 prev_off off j res)
  show ?case
  proof (cases "j < off")
    case False
    with "1.prems" have "j = off" by simp
    then show ?thesis
      by (simp add: enumerate_row.simps [of prev_off off off res])
  next
    case True
    with "1.prems" have jl: "j < length res" by simp
    let ?v = "of_nat (j - prev_off + 1) :: 32 word"
    have step: "enumerate_row prev_off off j res = enumerate_row prev_off off (Suc j) (res[j := ?v])"
      using True jl by (simp add: enumerate_row.simps [of prev_off off j res])
    have ih: "enumerate_row prev_off off (Suc j) (res[j := ?v]) =
        Inr (take (Suc j) (res[j := ?v]) @ map (\<lambda>k. of_nat (k - prev_off + 1)) [Suc j..<off]
             @ drop off (res[j := ?v]))"
      using "1.IH" [OF True jl] "1.prems" True by simp
    have t: "take (Suc j) (res[j := ?v]) = take j res @ [?v]"
      using jl by (simp add: take_Suc_conv_app_nth)
    have d: "drop off (res[j := ?v]) = drop off res"
      using True by simp
    have u: "[j..<off] = j # [Suc j..<off]"
      using True by (simp add: upt_conv_Cons)
    show ?thesis
      unfolding step ih t d u by simp
  qed
qed

lemma enumerated_rows_length_only:
  "length d = length d' \<Longrightarrow>
   map enumerated (rows_from p offs d) = map enumerated (rows_from p offs d')"
  by (induction offs arbitrary: p) (simp_all add: enumerated_def)

lemma enumerate_rows_result:
  "sorted (prev_off # offsets) \<Longrightarrow> \<forall>x\<in>set (prev_off # offsets). x \<le> length res \<Longrightarrow>
   \<exists>res'. enumerate_rows prev_off offsets res = Inr res' \<and> length res' = length res \<and>
     take prev_off res' = take prev_off res \<and>
     rows_from prev_off offsets res' = map enumerated (rows_from prev_off offsets res)"
proof (induction offsets arbitrary: prev_off res)
  case Nil
  then show ?case by simp
next
  case (Cons off offsets)
  from Cons.prems have le: "prev_off \<le> off" and srt: "sorted (off # offsets)"
    and bound: "off \<le> length res" by simp_all
  define mid where "mid = take prev_off res @ map (\<lambda>k. of_nat (k - prev_off + 1) :: 32 word) [prev_off..<off] @ drop off res"
  have row: "enumerate_row prev_off off prev_off res = Inr mid"
    using enumerate_row_result [OF order_refl le bound] by (simp add: mid_def)
  have len_mid: "length mid = length res"
    using le bound by (simp add: mid_def)
  from Cons.prems have "\<forall>x\<in>set (off # offsets). x \<le> length mid" by (simp add: len_mid)
  from Cons.IH [OF srt this] obtain res' where
    r: "enumerate_rows off offsets mid = Inr res'" and l: "length res' = length mid"
    and t: "take off res' = take off mid"
    and rows: "rows_from off offsets res' = map enumerated (rows_from off offsets mid)"
    by blast
  have pre: "take prev_off res' = take prev_off res"
  proof -
    have "take prev_off res' = take prev_off (take off res')" using le by (simp add: min_def)
    also have "\<dots> = take prev_off (take off mid)" by (simp only: t)
    also have "\<dots> = take prev_off res" using le bound by (simp add: mid_def min_def)
    finally show ?thesis .
  qed
  have this_row: "take (off - prev_off) (drop prev_off res') = enumerated (take (off - prev_off) (drop prev_off res))"
  proof -
    have "take (off - prev_off) (drop prev_off res') = drop prev_off (take off res')"
      using le by (simp add: drop_take)
    also have "\<dots> = drop prev_off (take off mid)" by (simp only: t)
    also have "\<dots> = map (\<lambda>k. of_nat (k - prev_off + 1) :: 32 word) [prev_off..<off]"
      using le bound by (simp add: mid_def min_def)
    also have "\<dots> = map (\<lambda>j. of_nat (j + 1)) [0..<off - prev_off]"
      by (rule nth_equalityI) simp_all
    also have "\<dots> = enumerated (take (off - prev_off) (drop prev_off res))"
    proof -
      have "length (take (off - prev_off) (drop prev_off res)) = off - prev_off"
        using le bound by simp
      then show ?thesis by (simp only: enumerated_def)
    qed
    finally show ?thesis .
  qed
  have rest: "map enumerated (rows_from off offsets mid) = map enumerated (rows_from off offsets res)"
    by (rule enumerated_rows_length_only) (rule len_mid)
  show ?case
    by (simp add: row r l len_mid pre this_row rows rest)
qed

lemma sorted_le_last:
  "sorted (xs :: nat list) \<Longrightarrow> x \<in> set xs \<Longrightarrow> x \<le> last xs"
  by (induction xs) auto

lemma valid_offsets_bounds:
  assumes "valid_offsets data offsets"
  shows "sorted (0 # offsets) \<and> (\<forall>x\<in>set (0 # offsets). x \<le> length data)"
proof -
  from assms have s: "sorted offsets" and l: "last (0 # offsets) = length data"
    by (simp_all add: valid_offsets_def)
  have "x \<le> length data" if "x \<in> set offsets" for x
  proof -
    from that have "offsets \<noteq> []" by auto
    with l have "last offsets = length data" by simp
    with sorted_le_last [OF s that] show ?thesis by simp
  qed
  with s show ?thesis by simp
qed

text \<open>
  C10. For every array column (one that satisfies the representation invariant),
  \<^verbatim>\<open>arrayEnumerate\<close> returns an array column over the same offsets, hence with the same
  row lengths, whose row holds at 0-based position \<open>j\<close> the value \<open>j + 1\<close> as a
  \<^verbatim>\<open>UInt32\<close>, whatever the fresh buffer held; the elements of the argument are not
  read: any flat buffer of the same size gives the same result.
\<close>

theorem arrayEnumerate_rows:
  assumes "valid_offsets data offsets"
  shows "\<exists>res_values.
           arrayEnumerate_executeImpl mem (ColumnArray data offsets) = Inr (ColumnArray res_values offsets) \<and>
           length res_values = length data \<and>
           array_rows (ColumnArray res_values offsets) = map enumerated (array_rows (ColumnArray data offsets)) \<and>
           (\<forall>data' :: 'b list. length data' = length data \<longrightarrow>
              arrayEnumerate_executeImpl mem (ColumnArray data' offsets) = Inr (ColumnArray res_values offsets))"
proof -
  from valid_offsets_bounds [OF assms]
  have s: "sorted (0 # offsets)" and b: "\<forall>x\<in>set (0 # offsets). x \<le> length (resize mem (length data))"
    by (simp_all add: resize_def)
  from enumerate_rows_result [OF s b] obtain res' where
    r: "enumerate_rows 0 offsets (resize mem (length data)) = Inr res'"
    and l: "length res' = length (resize mem (length data))"
    and rows: "rows_from 0 offsets res' = map enumerated (rows_from 0 offsets (resize mem (length data)))"
    by blast
  have "map enumerated (rows_from 0 offsets (resize mem (length data))) = map enumerated (rows_from 0 offsets data)"
    by (rule enumerated_rows_length_only) (simp add: resize_def)
  with r l rows show ?thesis
    by (simp add: resize_def)
qed

theorem arrayEnumerate_rows_witness:
  "valid_offsets ''abc'' [2, 3] \<and>
   (\<exists>res_values.
      arrayEnumerate_executeImpl (\<lambda>i. 7) (ColumnArray ''abc'' [2, 3] :: (char, unit) column) =
        Inr (ColumnArray res_values [2, 3]) \<and>
      array_rows (ColumnArray res_values [2, 3] :: (32 word, unit) column) = [[1, 2], [1]])"
proof -
  have v: "valid_offsets ''abc'' [2, 3]"
    by (simp add: valid_offsets_def)
  have rows: "map enumerated (array_rows (ColumnArray ''abc'' [2, 3] :: (char, unit) column)) = [[1, 2], [1]]"
    by (simp add: enumerated_def upt_conv_Cons)
  from arrayEnumerate_rows [OF v, of "\<lambda>i. 7"] obtain res_values where
    r: "arrayEnumerate_executeImpl (\<lambda>i. 7) (ColumnArray ''abc'' [2, 3] :: (char, unit) column) =
          Inr (ColumnArray res_values [2, 3])"
    and rr: "array_rows (ColumnArray res_values [2, 3] :: (32 word, unit) column) =
          map enumerated (array_rows (ColumnArray ''abc'' [2, 3] :: (char, unit) column))"
    by blast
  from rr rows have "array_rows (ColumnArray res_values [2, 3] :: (32 word, unit) column) = [[1, 2], [1]]"
    by (simp only:)
  with v r show ?thesis by blast
qed

end
